theory Spec2Isabelle
  imports Complex_Main "HOL-Library.Log_Nat"
begin

section \<open>Scrollinga: the scroll-lock engine\<close>

text \<open>
  A shallow embedding of the class \<open>Scrollinga\<close>. The object's fields, the
  registrations it holds with its host (the observer, the interval timer, the event
  listeners) and a trace of the calls it makes on the host are one record; every method is
  a function from that record to the updated record. A finite JavaScript number is the
  rational it denotes; the arithmetic of \<open>isScrollDown\<close> rounds each result to the nearest
  double, as the language does.
\<close>

subsection \<open>Data model\<close>

text \<open>
  The three metrics of the scrollable element that the engine reads, each a finite number.
  In a browser \<open>clientHeight\<close> and \<open>scrollHeight\<close> are integers, so the difference of two
  content heights is computed without rounding; \<open>scrollTop\<close> is a double. An assignment to
  \<open>scrollTop\<close> is stored as written. A browser would also clamp the stored offset to
  the scrollable range; the properties below are about the values the engine assigns and
  do not depend on the clamping.
\<close>

record Target =
  scrollTop :: rat
  clientHeight :: rat
  scrollHeight :: rat

text \<open>
  What the engine reads from \<open>window\<close>: \<open>devicePixelRatio\<close> (\<open>None\<close> where the host
  does not define it) and whether \<open>window.MutationObserver\<close> exists.
\<close>

record Window =
  devicePixelRatio :: "rat option"
  hasMutationObserver :: bool

text \<open>
  A scroll lock is the pair of closures \<open>at\<close> and \<open>when\<close>. Both read the target (and, for
  the bottom lock, the window) at the time they are called.
\<close>

record Lock =
  lock_at :: "Window \<Rightarrow> Target \<Rightarrow> rat"
  lock_when :: "Window \<Rightarrow> Target \<Rightarrow> bool"

text \<open>
  What the field \<open>scrollLock\<close> may hold: a lock object, or one of the values that
  \<open>!!\<close> turns into \<open>false\<close> (\<open>null\<close>, \<open>undefined\<close>, \<open>false\<close>, \<open>0\<close>, \<open>-0\<close>, \<open>NaN\<close>,
  \<open>0n\<close>, the empty string, \<open>document.all\<close>). With any other value \<open>shouldRescroll\<close> would
  call a \<open>when\<close> that is not a function and raise a TypeError; such values are outside
  the model.
\<close>

datatype falsy =
    JsNull
  | JsUndefined
  | JsFalse
  | JsZero
  | JsNegativeZero
  | JsNaN
  | JsZeroBigInt
  | JsEmptyString
  | JsDocumentAll

datatype lock_value = Falsy falsy | LockObject Lock

text \<open>The place in the source where an assignment to \<open>target.scrollTop\<close> stands.\<close>

datatype site = InRescroll | InSetInitialScrollLock

datatype listener_kind = ScrollEvt | ResizeEvt | LoadEvt nat

text \<open>
  The trace records, most recent first, each entry into \<open>rescroll\<close> and \<open>onScroll\<close>,
  each assignment to \<open>target.scrollTop\<close> and each call on the host.
\<close>

datatype effect =
    Called_rescroll
  | Called_onScroll
  | Write_scrollTop site rat
  | Observer_observe
  | Observer_disconnect
  | Window_setInterval nat
  | Window_clearInterval nat
  | AddEventListener listener_kind
  | RemoveEventListener listener_kind

text \<open>
  The engine. \<open>target\<close>, \<open>interval\<close>, \<open>observer\<close> (whether \<open>this.observer\<close> is set),
  \<open>scrollLock\<close> (\<open>undefined\<close> until it is first set) and \<open>rescrolling\<close> are the
  fields of \<open>this\<close>. The host's side follows: whether the observer is connected, the
  handles of the running interval timers that call \<open>rescroll\<close>, the number of timer
  handles handed out, whether \<open>onScroll\<close> and \<open>onResize\<close> are registered, and the load
  listeners as pairs of an image and a listener identity.
\<close>

record Scrollinga =
  target :: Target
  window :: Window
  interval :: nat
  observer :: bool
  scrollLock :: lock_value
  rescrolling :: bool
  observing :: bool
  timers :: "nat list"
  timerCount :: nat
  scrollListener :: bool
  resizeListener :: bool
  loadListeners :: "(nat \<times> nat) list"
  listenerCount :: nat
  trace :: "effect list"

datatype position = PosNumber rat | PosString string | PosAbsent

record Options =
  options_target :: Target
  options_interval :: "nat option"
  options_position :: position

text \<open>
  A DOM node: a text node, or an element with an identity, its \<open>tagName\<close> and its
  children. A mutation record is modelled by its \<open>addedNodes\<close>.
\<close>

datatype node = TextNode | Element nat string "node list"

record mutation =
  addedNodes :: "node list"

subsection \<open>Numbers\<close>

text \<open>
  The value of an arithmetic expression on doubles: a finite double, an infinity or
  \<open>NaN\<close>. The sign of zero is not kept: the divisor in \<open>isScrollDown\<close> is never zero, and
  no other operation there tells \<open>-0\<close> from \<open>0\<close>.
\<close>

datatype double = Finite rat | PosInfinity | NegInfinity | NaN

text \<open>Rounding to the nearest integer, a tie going to the even one.\<close>

definition roundHalfEven :: "rat \<Rightarrow> int" where
  "roundHalfEven q =
     (let f = \<lfloor>q\<rfloor>; d = q - of_int f
      in if d < 1/2 then f else if 1/2 < d then f + 1 else if even f then f else f + 1)"

text \<open>
  For a positive \<open>x\<close>, the exponent \<open>e\<close> of its leading bit: \<open>2 powi e \<le> x\<close> and
  \<open>x < 2 powi (e + 1)\<close>.
\<close>

definition binade :: "rat \<Rightarrow> int" where
  "binade x = (if 1 \<le> x then bitlen \<lfloor>x\<rfloor> - 1 else - bitlen (\<lceil>1 / x\<rceil> - 1))"

text \<open>
  IEEE 754 binary64 rounding of a real result, to nearest with ties to even: a significand
  of 53 bits, the exponent of the leading bit between -1022 (below it the numbers are
  subnormal, on the grid of \<open>2 powi (- 1074)\<close>) and 1023 (above it the result is an
  infinity).
\<close>

definition toDouble :: "rat \<Rightarrow> double" where
  "toDouble x =
     (if x = 0 then Finite 0
      else let e = max (binade \<bar>x\<bar>) (- 1022);
               m = roundHalfEven (\<bar>x\<bar> * 2 powi (52 - e));
               e' = (if m = 2 ^ 53 then e + 1 else e)
           in if 1023 < e' then (if x < 0 then NegInfinity else PosInfinity)
              else Finite (sgn x * of_int m * 2 powi (e - 52)))"

text \<open>
  The operations \<open>isScrollDown\<close> uses: \<open>+\<close> on two finite numbers, \<open>/\<close> by a finite
  non-zero number, \<open>Math.floor\<close>, \<open>-\<close>, and \<open><\<close> against a finite number.
\<close>

definition add64 :: "rat \<Rightarrow> rat \<Rightarrow> double" where
  "add64 x y = toDouble (x + y)"

fun div64 :: "double \<Rightarrow> rat \<Rightarrow> double" where
  "div64 (Finite a) r = toDouble (a / r)"
| "div64 PosInfinity r = (if 0 < r then PosInfinity else NegInfinity)"
| "div64 NegInfinity r = (if 0 < r then NegInfinity else PosInfinity)"
| "div64 NaN r = NaN"

fun floor64 :: "double \<Rightarrow> double" where
  "floor64 (Finite a) = Finite (of_int \<lfloor>a\<rfloor>)"
| "floor64 d = d"

fun sub64 :: "double \<Rightarrow> double \<Rightarrow> double" where
  "sub64 (Finite a) (Finite b) = toDouble (a - b)"
| "sub64 NaN d = NaN"
| "sub64 d NaN = NaN"
| "sub64 PosInfinity PosInfinity = NaN"
| "sub64 NegInfinity NegInfinity = NaN"
| "sub64 PosInfinity d = PosInfinity"
| "sub64 NegInfinity d = NegInfinity"
| "sub64 (Finite a) PosInfinity = NegInfinity"
| "sub64 (Finite a) NegInfinity = PosInfinity"

fun less64 :: "double \<Rightarrow> rat \<Rightarrow> bool" where
  "less64 (Finite a) r = (a < r)"
| "less64 NegInfinity r = True"
| "less64 PosInfinity r = False"
| "less64 NaN r = False"

subsection \<open>Predicates on the target\<close>

definition DEFAULT_INTERVAL_FALLBACK :: nat where
  "DEFAULT_INTERVAL_FALLBACK = 100"

text \<open>\<open>window.devicePixelRatio || 1\<close>: an undefined or zero ratio gives 1.\<close>

definition pixelRatio :: "Window \<Rightarrow> rat" where
  "pixelRatio w = (case devicePixelRatio w of
       None \<Rightarrow> 1
     | Some r \<Rightarrow> if r = 0 then 1 else r)"

definition isScrollDown :: "Window \<Rightarrow> Target \<Rightarrow> bool" where
  "isScrollDown w t =
     (let clientHeight' =
            floor64 (div64 (add64 (clientHeight t) (scrollTop t)) (pixelRatio w));
          scrollHeight' = floor64 (div64 (Finite (scrollHeight t)) (pixelRatio w))
      in less64 (sub64 scrollHeight' clientHeight') (pixelRatio w))"

text \<open>
  The copy of the class in \<open>scrollinga.js\<close> differs from the one above in this method
  only: it compares the sum with \<open>===\<close>.
\<close>

definition isScrollDown_exact :: "Target \<Rightarrow> bool" where
  "isScrollDown_exact t = (add64 (scrollTop t) (clientHeight t) = Finite (scrollHeight t))"

definition isScrollUp :: "Target \<Rightarrow> bool" where
  "isScrollUp t = (scrollTop t = 0)"

subsection \<open>Locks and reconciliation\<close>

definition setScrollLock :: "lock_value \<Rightarrow> Scrollinga \<Rightarrow> Scrollinga" where
  "setScrollLock lock s = s\<lparr>scrollLock := lock\<rparr>"

definition removeScrollLock :: "Scrollinga \<Rightarrow> Scrollinga" where
  "removeScrollLock s = s\<lparr>scrollLock := Falsy JsNull\<rparr>"

definition isScrollLocked :: "Scrollinga \<Rightarrow> bool" where
  "isScrollLocked s = (case scrollLock s of Falsy f \<Rightarrow> False | LockObject l \<Rightarrow> True)"

definition shouldRescroll :: "Scrollinga \<Rightarrow> bool" where
  "shouldRescroll s =
     (isScrollLocked s \<and>
      (case scrollLock s of
         Falsy f \<Rightarrow> False
       | LockObject l \<Rightarrow> lock_when l (window s) (target s)))"

definition rescroll :: "Scrollinga \<Rightarrow> Scrollinga" where
  "rescroll s0 =
     (let s = s0\<lparr>trace := Called_rescroll # trace s0\<rparr>
      in if shouldRescroll s then
           (case scrollLock s of
              Falsy f \<Rightarrow> s
            | LockObject l \<Rightarrow>
                (let v = lock_at l (window s) (target s)
                 in s\<lparr>rescrolling := True,
                      target := (target s)\<lparr>scrollTop := v\<rparr>,
                      trace := Write_scrollTop InRescroll v # trace s\<rparr>))
         else s)"

definition bottomLock :: Lock where
  "bottomLock = \<lparr>lock_at = (\<lambda>w t. scrollHeight t),
                 lock_when = (\<lambda>w t. \<not> isScrollDown w t)\<rparr>"

definition topLock :: Lock where
  "topLock = \<lparr>lock_at = (\<lambda>w t. 0),
              lock_when = (\<lambda>w t. \<not> isScrollUp t)\<rparr>"

definition currentPositionLock :: "rat \<Rightarrow> Lock" where
  "currentPositionLock prevScrollHeight =
     \<lparr>lock_at = (\<lambda>w t. scrollHeight t - prevScrollHeight),
      lock_when = (\<lambda>w t. True)\<rparr>"

definition setScrollLockAtBottom :: "Scrollinga \<Rightarrow> Scrollinga" where
  "setScrollLockAtBottom s = rescroll (setScrollLock (LockObject bottomLock) s)"

definition setScrollLockAtTop :: "Scrollinga \<Rightarrow> Scrollinga" where
  "setScrollLockAtTop s = rescroll (setScrollLock (LockObject topLock) s)"

definition setScrollLockAtCurrentPosition :: "Scrollinga \<Rightarrow> Scrollinga" where
  "setScrollLockAtCurrentPosition s =
     (let prevScrollHeight = scrollHeight (target s)
      in setScrollLock (LockObject (currentPositionLock prevScrollHeight)) s)"

subsection \<open>Handlers\<close>

definition onScroll :: "Scrollinga \<Rightarrow> Scrollinga" where
  "onScroll s0 =
     (let s = s0\<lparr>trace := Called_onScroll # trace s0\<rparr>
      in if rescrolling s then s\<lparr>rescrolling := False\<rparr>
         else
           (let s' =
                  (if isScrollDown (window s) (target s) \<and> \<not> isScrollLocked s
                   then setScrollLockAtBottom s
                   else if \<not> isScrollDown (window s) (target s)
                   then removeScrollLock s
                   else s)
            in s'\<lparr>rescrolling := False\<rparr>))"

definition onResize :: "Scrollinga \<Rightarrow> Scrollinga" where
  "onResize s = rescroll s"

text \<open>
  \<open>getImageLoadListener\<close> makes a new closure at each call: the model returns a fresh
  listener identity. \<open>imageLoadListener\<close> is the body of that closure, run with
  \<open>event.currentTarget\<close> the image it is registered on.
\<close>

definition getImageLoadListener :: "Scrollinga \<Rightarrow> nat \<times> Scrollinga" where
  "getImageLoadListener s = (listenerCount s, s\<lparr>listenerCount := Suc (listenerCount s)\<rparr>)"

definition imageLoadListener :: "nat \<Rightarrow> nat \<Rightarrow> Scrollinga \<Rightarrow> Scrollinga" where
  "imageLoadListener listener currentTarget s0 =
     (let s = rescroll s0
      in s\<lparr>loadListeners := removeAll (currentTarget, listener) (loadListeners s),
           trace := RemoveEventListener (LoadEvt currentTarget) # trace s\<rparr>)"

definition listenToImageLoad :: "nat \<Rightarrow> Scrollinga \<Rightarrow> Scrollinga" where
  "listenToImageLoad img s0 =
     (case getImageLoadListener s0 of
        (listener, s) \<Rightarrow>
          s\<lparr>loadListeners := loadListeners s @ [(img, listener)],
            trace := AddEventListener (LoadEvt img) # trace s\<rparr>)"

text \<open>
  \<open>getElementsByTagName('img')\<close>: the image elements among the descendants of a node, in
  document order. Element names of an HTML document are upper case.
\<close>

fun descendantImages :: "node \<Rightarrow> nat list" and imagesIn :: "node \<Rightarrow> nat list" where
  "descendantImages TextNode = []"
| "descendantImages (Element i tagName cs) = concat (map imagesIn cs)"
| "imagesIn TextNode = []"
| "imagesIn (Element i tagName cs) =
     (if tagName = ''IMG'' then [i] else []) @ concat (map imagesIn cs)"

text \<open>
  The images one added node makes \<open>addImageListeners\<close> listen to: the node itself when its
  \<open>tagName\<close> is \<open>IMG\<close>, then its image descendants when it has \<open>getElementsByTagName\<close>
  (a text node has neither).
\<close>

fun imagesToListen :: "node \<Rightarrow> nat list" where
  "imagesToListen TextNode = []"
| "imagesToListen (Element i tagName cs) =
     (if tagName = ''IMG'' then [i] else []) @ descendantImages (Element i tagName cs)"

definition addImageListeners :: "mutation list \<Rightarrow> Scrollinga \<Rightarrow> Scrollinga" where
  "addImageListeners mutations s =
     fold (\<lambda>mutation. fold (\<lambda>node. fold listenToImageLoad (imagesToListen node))
                             (addedNodes mutation))
          mutations s"

definition onMutation :: "mutation list \<Rightarrow> Scrollinga \<Rightarrow> Scrollinga" where
  "onMutation mutations s = addImageListeners mutations (rescroll s)"

subsection \<open>Construction and teardown\<close>

definition setInitialScrollLock :: "position \<Rightarrow> Scrollinga \<Rightarrow> Scrollinga" where
  "setInitialScrollLock position s =
     (case position of
        PosNumber n \<Rightarrow>
          s\<lparr>target := (target s)\<lparr>scrollTop := n\<rparr>,
            trace := Write_scrollTop InSetInitialScrollLock n # trace s\<rparr>
      | PosString str \<Rightarrow>
          if str = ''bottom'' then setScrollLockAtBottom s
          else if str = ''top'' then setScrollLockAtTop s
          else setScrollLockAtBottom s
      | PosAbsent \<Rightarrow> setScrollLockAtBottom s)"

text \<open>
  \<open>window.setInterval\<close> returns a handle greater than zero; the handle replaces the
  period in \<open>this.interval\<close>.
\<close>

definition setupListeners :: "Scrollinga \<Rightarrow> Scrollinga" where
  "setupListeners s0 =
     (let s =
        (if hasMutationObserver (window s0)
         then s0\<lparr>observer := True, observing := True,
                 trace := Observer_observe # trace s0\<rparr>
         else (let handle = Suc (timerCount s0)
               in s0\<lparr>interval := handle,
                     timers := handle # timers s0,
                     timerCount := handle,
                     trace := Window_setInterval (interval s0) # trace s0\<rparr>))
      in s\<lparr>scrollListener := True, resizeListener := True,
           trace := AddEventListener ResizeEvt # AddEventListener ScrollEvt # trace s\<rparr>)"

text \<open>
  The state in which the constructor starts: the fields of \<open>this\<close> unset, nothing
  registered with the host, an empty trace.
\<close>

definition newObject :: "Window \<Rightarrow> Target \<Rightarrow> nat \<Rightarrow> Scrollinga" where
  "newObject w t n =
     \<lparr>target = t, window = w, interval = n, observer = False,
      scrollLock = Falsy JsUndefined,
      rescrolling = False, observing = False, timers = [], timerCount = 0,
      scrollListener = False, resizeListener = False, loadListeners = [],
      listenerCount = 0, trace = []\<rparr>"

definition constructor :: "Window \<Rightarrow> Options \<Rightarrow> Scrollinga" where
  "constructor w options =
     (let s = newObject w (options_target options)
                (case options_interval options of
                   None \<Rightarrow> DEFAULT_INTERVAL_FALLBACK
                 | Some n \<Rightarrow> if n = 0 then DEFAULT_INTERVAL_FALLBACK else n)
      in rescroll (setupListeners (setInitialScrollLock (options_position options) s)))"

definition close :: "Scrollinga \<Rightarrow> Scrollinga" where
  "close s0 =
     (let s1 = (if observer s0
                then s0\<lparr>observing := False, trace := Observer_disconnect # trace s0\<rparr>
                else s0);
          s2 = (if interval s1 \<noteq> 0
                then s1\<lparr>timers := removeAll (interval s1) (timers s1),
                        trace := Window_clearInterval (interval s1) # trace s1\<rparr>
                else s1)
      in s2\<lparr>scrollListener := False, resizeListener := False,
            trace := RemoveEventListener ResizeEvt # RemoveEventListener ScrollEvt # trace s2\<rparr>)"

subsection \<open>The host\<close>

text \<open>
  What the host does to the engine. A notification runs the handler only while the
  handler is registered: mutation records reach \<open>onMutation\<close> while the observer is
  connected, a scroll or resize event reaches its handler while the listener is on, a
  timer calls \<open>rescroll\<close> while it runs, and a load event on an image runs the load
  listeners that were on the image when the event was dispatched and have not been removed
  since. \<open>Host_target\<close> is a change of the target's metrics from outside the engine
  (content growing, the user scrolling). The remaining events are the calls of the public
  methods.
\<close>

datatype event =
    Notify_mutation "mutation list"
  | Notify_scroll
  | Notify_resize
  | Notify_load nat
  | Notify_tick nat
  | Host_target Target
  | Call_setScrollLock lock_value
  | Call_setScrollLockAtBottom
  | Call_setScrollLockAtTop
  | Call_setScrollLockAtCurrentPosition
  | Call_removeScrollLock
  | Call_close

fun dispatchLoad :: "nat \<Rightarrow> nat list \<Rightarrow> Scrollinga \<Rightarrow> Scrollinga" where
  "dispatchLoad img [] s = s"
| "dispatchLoad img (l # ls) s =
     dispatchLoad img ls
       (if (img, l) \<in> set (loadListeners s) then imageLoadListener l img s else s)"

definition listenersOn :: "nat \<Rightarrow> Scrollinga \<Rightarrow> nat list" where
  "listenersOn img s = map snd (filter (\<lambda>p. fst p = img) (loadListeners s))"

fun step :: "event \<Rightarrow> Scrollinga \<Rightarrow> Scrollinga" where
  "step (Notify_mutation ms) s = (if observing s then onMutation ms s else s)"
| "step Notify_scroll s = (if scrollListener s then onScroll s else s)"
| "step Notify_resize s = (if resizeListener s then onResize s else s)"
| "step (Notify_load img) s = dispatchLoad img (listenersOn img s) s"
| "step (Notify_tick h) s = (if h \<in> set (timers s) then rescroll s else s)"
| "step (Host_target t) s = s\<lparr>target := t\<rparr>"
| "step (Call_setScrollLock l) s = setScrollLock l s"
| "step Call_setScrollLockAtBottom s = setScrollLockAtBottom s"
| "step Call_setScrollLockAtTop s = setScrollLockAtTop s"
| "step Call_setScrollLockAtCurrentPosition s = setScrollLockAtCurrentPosition s"
| "step Call_removeScrollLock s = removeScrollLock s"
| "step Call_close s = close s"

definition run :: "event list \<Rightarrow> Scrollinga \<Rightarrow> Scrollinga" where
  "run es s = fold step es s"

subsection \<open>Reading the trace\<close>

fun isWrite :: "effect \<Rightarrow> bool" where
  "isWrite (Write_scrollTop site v) = True"
| "isWrite e = False"

fun isDirectWrite :: "effect \<Rightarrow> bool" where
  "isDirectWrite (Write_scrollTop site v) = (site = InSetInitialScrollLock)"
| "isDirectWrite e = False"

fun isRescrollWrite :: "effect \<Rightarrow> bool" where
  "isRescrollWrite (Write_scrollTop site v) = (site = InRescroll)"
| "isRescrollWrite e = False"

definition writes :: "effect list \<Rightarrow> effect list" where
  "writes tr = filter isWrite tr"

text \<open>
  From \<open>s\<close> to \<open>s'\<close> writes were only added to the trace, and the target is unchanged
  unless one was added.
\<close>

definition tracedFrom :: "Scrollinga \<Rightarrow> Scrollinga \<Rightarrow> bool" where
  "tracedFrom s s' =
     (length (writes (trace s)) \<le> length (writes (trace s'))
      \<and> (length (writes (trace s')) = length (writes (trace s)) \<longrightarrow> target s' = target s))"

definition rescrollCalls :: "effect list \<Rightarrow> nat" where
  "rescrollCalls tr = length (filter (\<lambda>e. e = Called_rescroll) tr)"

text \<open>The images \<open>addImageListeners\<close> visits for a batch of mutation records, in order.\<close>

definition addedImages :: "mutation list \<Rightarrow> nat list" where
  "addedImages mutations = concat (map imagesToListen (concat (map addedNodes mutations)))"

text \<open>
  \<open>rescroll\<close> has assigned \<open>scrollTop\<close> since \<open>onScroll\<close> was last entered (or since the
  start, when it never was).
\<close>

definition writtenSinceScroll :: "effect list \<Rightarrow> bool" where
  "writtenSinceScroll tr =
     list_ex isRescrollWrite (takeWhile (\<lambda>e. e \<noteq> Called_onScroll) tr)"

definition flagJustified :: "Scrollinga \<Rightarrow> bool" where
  "flagJustified s = (rescrolling s \<longrightarrow> writtenSinceScroll (trace s))"

text \<open>
  The handle in \<open>this.interval\<close> is the only timer the engine may have running, and a
  connected observer is the one in \<open>this.observer\<close>.
\<close>

definition hostOwned :: "Scrollinga \<Rightarrow> bool" where
  "hostOwned s =
     (interval s \<noteq> 0 \<and> list_all (\<lambda>h. h = interval s) (timers s)
      \<and> (observing s \<longrightarrow> observer s))"

definition detached :: "Scrollinga \<Rightarrow> bool" where
  "detached s =
     (\<not> observing s \<and> timers s = [] \<and> \<not> scrollListener s \<and> \<not> resizeListener s)"

text \<open>Listener identities are distinct and below the next one to be handed out.\<close>

definition listenersFresh :: "Scrollinga \<Rightarrow> bool" where
  "listenersFresh s =
     (distinct (map snd (loadListeners s))
      \<and> list_all (\<lambda>p. snd p < listenerCount s) (loadListeners s))"

text \<open>
  The structural-change, scroll, resize and timer notifications, and changes of the target
  from outside.
\<close>

fun isNotification :: "event \<Rightarrow> bool" where
  "isNotification (Notify_mutation ms) = True"
| "isNotification Notify_scroll = True"
| "isNotification Notify_resize = True"
| "isNotification (Notify_tick h) = True"
| "isNotification (Host_target t) = True"
| "isNotification e = False"



subsection \<open>Example hosts, targets and engines\<close>

definition plainWindow :: Window where
  "plainWindow = \<lparr>devicePixelRatio = None, hasMutationObserver = True\<rparr>"

definition retinaWindow :: Window where
  "retinaWindow = \<lparr>devicePixelRatio = Some 2, hasMutationObserver = True\<rparr>"

definition pollingWindow :: Window where
  "pollingWindow = \<lparr>devicePixelRatio = None, hasMutationObserver = False\<rparr>"

definition threeShort :: Target where
  "threeShort = \<lparr>scrollTop = 0, clientHeight = 100, scrollHeight = 103\<rparr>"

definition halfPast :: Target where
  "halfPast = \<lparr>scrollTop = 1/2, clientHeight = 100, scrollHeight = 100\<rparr>"

definition scrolledDown :: Target where
  "scrolledDown = \<lparr>scrollTop = 900, clientHeight = 100, scrollHeight = 1000\<rparr>"

definition midway :: Target where
  "midway = \<lparr>scrollTop = 50, clientHeight = 100, scrollHeight = 1000\<rparr>"

text \<open>\<open>midway\<close> after its content has grown by 100.\<close>

definition grown :: Target where
  "grown = \<lparr>scrollTop = 50, clientHeight = 100, scrollHeight = 1100\<rparr>"

text \<open>\<open>scrolledDown\<close> after its content has grown by 200.\<close>

definition taller :: Target where
  "taller = \<lparr>scrollTop = 900, clientHeight = 100, scrollHeight = 1200\<rparr>"

text \<open>
  The doubles written \<open>1.3\<close>, \<open>1.1\<close>, \<open>41.7\<close>, \<open>0.1\<close>, \<open>0.2\<close> and
  \<open>0.30000000000000004\<close> in the language, as the rationals they are.
\<close>

definition ratio13 :: Window where
  "ratio13 = \<lparr>devicePixelRatio = Some (5854679515581645 / 4503599627370496),
              hasMutationObserver = True\<rparr>"

definition ratio11 :: Window where
  "ratio11 = \<lparr>devicePixelRatio = Some (2476979795053773 / 2251799813685248),
              hasMutationObserver = True\<rparr>"

definition fractional :: Target where
  "fractional = \<lparr>scrollTop = 2934376632208589 / 70368744177664, clientHeight = 100,
                 scrollHeight = 143\<rparr>"

definition elevenTall :: Target where
  "elevenTall = \<lparr>scrollTop = 0, clientHeight = 9, scrollHeight = 11\<rparr>"

definition tenths :: Target where
  "tenths = \<lparr>scrollTop = 3602879701896397 / 36028797018963968,
             clientHeight = 3602879701896397 / 18014398509481984,
             scrollHeight = 1351079888211149 / 4503599627370496\<rparr>"

definition defaultOptions :: "Target \<Rightarrow> Options" where
  "defaultOptions t =
     \<lparr>options_target = t, options_interval = None, options_position = PosAbsent\<rparr>"

definition numericOptions :: "Target \<Rightarrow> rat \<Rightarrow> Options" where
  "numericOptions t n =
     \<lparr>options_target = t, options_interval = None, options_position = PosNumber n\<rparr>"

text \<open>One mutation record that adds the image element 1.\<close>

definition photoAdded :: "mutation list" where
  "photoAdded = [\<lparr>addedNodes = [Element 1 ''IMG'' []]\<rparr>]"

text \<open>
  \<open>new Scrollinga({target})\<close> with and without \<open>MutationObserver\<close>, and
  \<open>new Scrollinga({target, position: n})\<close>.
\<close>

definition chatLog :: Scrollinga where
  "chatLog = constructor plainWindow (defaultOptions midway)"

definition polledLog :: Scrollinga where
  "polledLog = constructor pollingWindow (defaultOptions midway)"

definition reader :: Scrollinga where
  "reader = constructor plainWindow (numericOptions midway 50)"

definition atEnd :: Scrollinga where
  "atEnd = constructor plainWindow (numericOptions scrolledDown 900)"

section \<open>Properties\<close>

subsection \<open>Rounding to double\<close>

lemma roundHalfEven_of_int: "roundHalfEven (of_int n) = n"
  by (simp add: roundHalfEven_def)

lemma roundHalfEven_ge: "of_int n \<le> q \<Longrightarrow> n \<le> roundHalfEven q"
proof -
  assume "of_int n \<le> q"
  then have "n \<le> \<lfloor>q\<rfloor>" by (simp add: le_floor_iff)
  then show ?thesis by (simp add: roundHalfEven_def Let_def)
qed

lemma roundHalfEven_le: "q \<le> of_int n \<Longrightarrow> roundHalfEven q \<le> n"
proof -
  assume q: "q \<le> of_int n"
  show ?thesis
  proof (cases "q = of_int \<lfloor>q\<rfloor>")
    case True
    then have "roundHalfEven q = \<lfloor>q\<rfloor>" by (simp add: roundHalfEven_def Let_def)
    moreover have "\<lfloor>q\<rfloor> \<le> n" using q by (simp add: floor_le_iff)
    ultimately show ?thesis by simp
  next
    case False
    then have "of_int \<lfloor>q\<rfloor> < q" using of_int_floor_le [of q] by (metis le_less)
    then have "of_int \<lfloor>q\<rfloor> < (of_int n :: rat)" using q by linarith
    then have "\<lfloor>q\<rfloor> + 1 \<le> n" by simp
    then show ?thesis by (simp add: roundHalfEven_def Let_def)
  qed
qed

lemma binade_lower:
  assumes "0 < x"
  shows "2 powi (binade x) \<le> x"
proof (cases "1 \<le> x")
  case True
  then have n: "0 < \<lfloor>x\<rfloor>" by simp
  from bitlen_bounds [OF n] have "2 ^ nat (bitlen \<lfloor>x\<rfloor> - 1) \<le> \<lfloor>x\<rfloor>" by simp
  then have "(of_int (2 ^ nat (bitlen \<lfloor>x\<rfloor> - 1)) :: rat) \<le> of_int \<lfloor>x\<rfloor>"
    by (simp only: of_int_le_iff)
  also have "\<dots> \<le> x" by simp
  finally have "(2::rat) ^ nat (bitlen \<lfloor>x\<rfloor> - 1) \<le> x" by simp
  moreover have "0 \<le> bitlen \<lfloor>x\<rfloor> - 1"
    using n bitlen_eq_zero_iff [of "\<lfloor>x\<rfloor>"] bitlen_nonneg [of "\<lfloor>x\<rfloor>"] by linarith
  ultimately show ?thesis using True by (simp add: binade_def power_int_def)
next
  case False
  define z where "z = \<lceil>1 / x\<rceil>"
  define k where "k = bitlen (z - 1)"
  have x1: "x < 1" using False by simp
  have "1 < 1 / x" using assms x1 by simp
  then have z2: "1 < z" unfolding z_def by (simp add: less_ceiling_iff)
  have k0: "0 \<le> k" unfolding k_def by (rule bitlen_nonneg)
  have "z - 1 < 2 ^ nat k"
  proof (cases "0 < z - 1")
    case True
    from bitlen_bounds [OF True] show ?thesis by (simp add: k_def)
  next
    case False
    then show ?thesis using z2 by simp
  qed
  then have "z \<le> 2 ^ nat k" by simp
  then have "(of_int z :: rat) \<le> of_int (2 ^ nat k)" by (simp only: of_int_le_iff)
  then have "(of_int z :: rat) \<le> 2 ^ nat k" by simp
  moreover have "1 / x \<le> of_int z" unfolding z_def by (rule le_of_int_ceiling)
  ultimately have "1 / x \<le> 2 ^ nat k" by (rule order_trans [rotated])
  then have "1 \<le> 2 ^ nat k * x" using assms by (simp add: pos_divide_le_eq)
  then have "1 / 2 ^ nat k \<le> x" by (simp add: pos_divide_le_eq mult.commute)
  moreover have "2 powi (- k) = 1 / (2::rat) ^ nat k"
  proof -
    have "(2::rat) powi k = 2 ^ nat k" using k0 by (simp add: power_int_def)
    then show ?thesis by (simp only: power_int_minus_divide)
  qed
  ultimately show ?thesis using False by (simp add: binade_def z_def k_def)
qed

lemma binade_less:
  assumes "0 < x" and "x < 2 powi b"
  shows "binade x < b"
proof -
  have "(2::rat) powi (binade x) < 2 powi b"
    using binade_lower [OF assms(1)] assms(2) by simp
  moreover have "(2::rat) powi b \<le> 2 powi (binade x)" if "b \<le> binade x"
    using that by (rule power_int_increasing) simp
  ultimately show ?thesis by (meson not_le not_less order.strict_trans1 less_irrefl)
qed

lemma toDouble_grid:
  assumes "x \<noteq> 0" and "\<bar>x\<bar> < 2 powi b" and "b \<le> 53" and "- 1021 \<le> b"
  obtains j where "nat (53 - b) \<le> j"
    and "toDouble x = Finite (sgn x * of_int (roundHalfEven (\<bar>x\<bar> * 2 ^ j)) / 2 ^ j)"
proof -
  define e where "e = max (binade \<bar>x\<bar>) (- 1022)"
  define j where "j = nat (52 - e)"
  have "binade \<bar>x\<bar> < b" using assms(1,2) by (intro binade_less) simp_all
  then have e: "e \<le> b - 1" using assms(4) by (simp add: e_def)
  then have e52: "e \<le> 52" using assms(3) by simp
  then have p1: "(2::rat) powi (52 - e) = 2 ^ j" by (simp add: j_def power_int_def)
  have "(2::rat) powi (e - 52) = 2 powi (- (52 - e))" by simp
  also have "\<dots> = 1 / 2 powi (52 - e)" by (simp only: power_int_minus_divide)
  finally have p2: "(2::rat) powi (e - 52) = 1 / 2 ^ j" by (simp add: p1)
  have "toDouble x = Finite (sgn x * of_int (roundHalfEven (\<bar>x\<bar> * 2 ^ j)) / 2 ^ j)"
    using assms(1) e52
    by (simp add: toDouble_def Let_def e_def [symmetric] p1 p2)
  moreover have "nat (53 - b) \<le> j" using e by (simp add: j_def)
  ultimately show ?thesis using that by blast
qed

lemma toDouble_exact:
  assumes "\<bar>n\<bar> < 2 ^ 53" and "k \<le> 1074"
  shows "toDouble (of_int n / 2 ^ k) = Finite (of_int n / 2 ^ k)"
proof (cases "n = 0")
  case True
  then show ?thesis by (simp add: toDouble_def)
next
  case False
  define x :: rat where "x = of_int n / 2 ^ k"
  have x0: "x \<noteq> 0" using False by (simp add: x_def)
  have ax: "\<bar>x\<bar> = of_int \<bar>n\<bar> / 2 ^ k" by (simp add: x_def)
  have "(of_int \<bar>n\<bar> :: rat) < of_int (2 ^ 53)" using assms(1) by (simp only: of_int_less_iff)
  then have "(of_int \<bar>n\<bar> :: rat) < 2 ^ 53" by simp
  then have "\<bar>x\<bar> < 2 ^ 53 / 2 ^ k" unfolding ax by (simp add: divide_strict_right_mono)
  also have "\<dots> = 2 powi (53 - int k)"
    by (simp add: power_int_diff)
  finally have lt: "\<bar>x\<bar> < 2 powi (53 - int k)" .
  from assms(2) have b: "53 - int k \<le> 53" "- 1021 \<le> 53 - int k" by simp_all
  from toDouble_grid [OF x0 lt b] obtain j where j: "nat (53 - (53 - int k)) \<le> j"
    and v: "toDouble x = Finite (sgn x * of_int (roundHalfEven (\<bar>x\<bar> * 2 ^ j)) / 2 ^ j)"
    by blast
  from j have kj: "k \<le> j" by simp
  then have "(2::rat) ^ j = 2 ^ k * 2 ^ (j - k)" by (simp flip: power_add)
  then have "\<bar>x\<bar> * 2 ^ j = of_int (\<bar>n\<bar> * 2 ^ (j - k))" by (simp add: ax)
  then have "roundHalfEven (\<bar>x\<bar> * 2 ^ j) = \<bar>n\<bar> * 2 ^ (j - k)"
    by (simp only: roundHalfEven_of_int)
  then have "of_int (roundHalfEven (\<bar>x\<bar> * 2 ^ j)) = \<bar>x\<bar> * 2 ^ j"
    using \<open>\<bar>x\<bar> * 2 ^ j = of_int (\<bar>n\<bar> * 2 ^ (j - k))\<close> by simp
  with v have "toDouble x = Finite (sgn x * \<bar>x\<bar>)" by simp
  then show ?thesis by (simp add: x_def [symmetric] mult_sgn_abs)
qed

lemma toDouble_of_int: "\<bar>n\<bar> < 2 ^ 53 \<Longrightarrow> toDouble (of_int n) = Finite (of_int n)"
  using toDouble_exact [of n 0] by simp

lemma toDouble_between:
  assumes "\<bar>x\<bar> < 2 ^ 53"
  obtains v where "toDouble x = Finite v" and "of_int \<lfloor>x\<rfloor> \<le> v" and "v \<le> of_int \<lceil>x\<rceil>"
proof (cases "x = 0")
  case True
  then show ?thesis using that by (simp add: toDouble_def)
next
  case False
  from assms have lt: "\<bar>x\<bar> < 2 powi 53" by simp
  from toDouble_grid [OF False lt] obtain j where
    v: "toDouble x = Finite (sgn x * of_int (roundHalfEven (\<bar>x\<bar> * 2 ^ j)) / 2 ^ j)"
    by auto
  define m where "m = roundHalfEven (\<bar>x\<bar> * 2 ^ j)"
  have lo: "of_int \<lfloor>\<bar>x\<bar>\<rfloor> \<le> (of_int m :: rat) / 2 ^ j"
  proof -
    have "of_int (\<lfloor>\<bar>x\<bar>\<rfloor> * 2 ^ j) \<le> \<bar>x\<bar> * 2 ^ j" by simp
    then have "\<lfloor>\<bar>x\<bar>\<rfloor> * 2 ^ j \<le> m" unfolding m_def by (rule roundHalfEven_ge)
    then have "(of_int (\<lfloor>\<bar>x\<bar>\<rfloor> * 2 ^ j) :: rat) \<le> of_int m" by (simp only: of_int_le_iff)
    then show ?thesis by (simp add: pos_le_divide_eq)
  qed
  have hi: "(of_int m :: rat) / 2 ^ j \<le> of_int \<lceil>\<bar>x\<bar>\<rceil>"
  proof -
    have "\<bar>x\<bar> * 2 ^ j \<le> of_int (\<lceil>\<bar>x\<bar>\<rceil> * 2 ^ j)" by simp
    then have "m \<le> \<lceil>\<bar>x\<bar>\<rceil> * 2 ^ j" unfolding m_def by (rule roundHalfEven_le)
    then have "(of_int m :: rat) \<le> of_int (\<lceil>\<bar>x\<bar>\<rceil> * 2 ^ j)" by (simp only: of_int_le_iff)
    then show ?thesis by (simp add: pos_divide_le_eq)
  qed
  show ?thesis
  proof (cases "0 < x")
    case True
    then have "toDouble x = Finite (of_int m / 2 ^ j)" using v by (simp add: m_def)
    with lo hi True show ?thesis using that by simp
  next
    case neg: False
    with False have x: "x < 0" by simp
    then have "toDouble x = Finite (- (of_int m / 2 ^ j))" using v by (simp add: m_def)
    moreover have "of_int \<lfloor>x\<rfloor> \<le> - ((of_int m :: rat) / 2 ^ j)"
      using hi x by (simp add: ceiling_def)
    moreover have "- ((of_int m :: rat) / 2 ^ j) \<le> of_int \<lceil>x\<rceil>"
      using lo x by (simp add: ceiling_def)
    ultimately show ?thesis using that by blast
  qed
qed

subsection \<open>The at-bottom predicate\<close>

lemma floor_diff_le:
  fixes a b :: rat
  assumes "a - b \<le> of_int m"
  shows "\<lfloor>a\<rfloor> - \<lfloor>b\<rfloor> \<le> m"
proof -
  have "a \<le> b + of_int m" using assms by simp
  then have "\<lfloor>a\<rfloor> \<le> \<lfloor>b + of_int m\<rfloor>" by (rule floor_mono)
  then show ?thesis by simp
qed

lemma floor_diff_less:
  fixes a b :: rat
  assumes "\<lfloor>a\<rfloor> - \<lfloor>b\<rfloor> < m"
  shows "a - b < of_int m"
proof -
  have "a < of_int (\<lfloor>a\<rfloor> + 1)" by linarith
  also have "\<dots> \<le> of_int (\<lfloor>b\<rfloor> + m)" using assms by simp
  also have "\<dots> \<le> b + of_int m" by simp
  finally show ?thesis by simp
qed

text \<open>The floor of a rounded quotient of moderate size lies between the floor and the ceiling.\<close>

lemma floor64_toDouble:
  assumes "\<bar>x\<bar> < 2 ^ 51"
  obtains h where "floor64 (toDouble x) = Finite (of_int h)"
    and "\<lfloor>x\<rfloor> \<le> h" and "h \<le> \<lceil>x\<rceil>" and "\<bar>h\<bar> \<le> 2 ^ 51"
proof -
  from assms have "\<bar>x\<bar> < 2 ^ 53" by simp
  from toDouble_between [OF this] obtain v where
    v: "toDouble x = Finite v" "of_int \<lfloor>x\<rfloor> \<le> v" "v \<le> of_int \<lceil>x\<rceil>" by blast
  have 1: "\<lfloor>x\<rfloor> \<le> \<lfloor>v\<rfloor>" using v(2) by (simp add: le_floor_iff)
  have "of_int \<lfloor>v\<rfloor> \<le> (of_int \<lceil>x\<rceil> :: rat)" using v(3) of_int_floor_le [of v] by linarith
  then have 2: "\<lfloor>v\<rfloor> \<le> \<lceil>x\<rceil>" by simp
  have "- (2 ^ 51) \<le> x" "x \<le> 2 ^ 51" using assms by (simp_all add: abs_less_iff)
  then have "- (2 ^ 51) \<le> \<lfloor>x\<rfloor>" "\<lceil>x\<rceil> \<le> 2 ^ 51"
    by (simp_all add: le_floor_iff ceiling_le_iff)
  with 1 2 have 3: "\<bar>\<lfloor>v\<rfloor>\<bar> \<le> 2 ^ 51" by linarith
  show ?thesis using that [of "\<lfloor>v\<rfloor>"] v(1) 1 2 3 by simp
qed

lemma sub64_of_int:
  assumes "\<bar>h\<bar> \<le> 2 ^ 51" and "\<bar>c\<bar> \<le> 2 ^ 51"
  shows "toDouble (of_int h - of_int c) = Finite (of_int h - of_int c)"
proof -
  have "\<bar>h - c\<bar> < 2 ^ 53" using assms by simp
  then have "toDouble (of_int (h - c)) = Finite (of_int (h - c))" by (rule toDouble_of_int)
  then show ?thesis by simp
qed

lemma isScrollDown_floors:
  assumes "add64 (clientHeight t) (scrollTop t) = Finite (clientHeight t + scrollTop t)"
    and "\<bar>scrollHeight t / pixelRatio w\<bar> < 2 ^ 51"
    and "\<bar>(clientHeight t + scrollTop t) / pixelRatio w\<bar> < 2 ^ 51"
  obtains h c where
    "isScrollDown w t \<longleftrightarrow> of_int (h - c) < pixelRatio w"
    and "\<lfloor>scrollHeight t / pixelRatio w\<rfloor> \<le> h" and "h \<le> \<lceil>scrollHeight t / pixelRatio w\<rceil>"
    and "\<lfloor>(clientHeight t + scrollTop t) / pixelRatio w\<rfloor> \<le> c"
    and "c \<le> \<lceil>(clientHeight t + scrollTop t) / pixelRatio w\<rceil>"
    and "floor64 (div64 (Finite (scrollHeight t)) (pixelRatio w)) = Finite (of_int h)"
    and "floor64 (div64 (Finite (clientHeight t + scrollTop t)) (pixelRatio w)) = Finite (of_int c)"
proof -
  from floor64_toDouble [OF assms(2)] obtain h where
    h: "floor64 (toDouble (scrollHeight t / pixelRatio w)) = Finite (of_int h)"
       "\<lfloor>scrollHeight t / pixelRatio w\<rfloor> \<le> h" "h \<le> \<lceil>scrollHeight t / pixelRatio w\<rceil>"
       "\<bar>h\<bar> \<le> 2 ^ 51" by blast
  from floor64_toDouble [OF assms(3)] obtain c where
    c: "floor64 (toDouble ((clientHeight t + scrollTop t) / pixelRatio w)) = Finite (of_int c)"
       "\<lfloor>(clientHeight t + scrollTop t) / pixelRatio w\<rfloor> \<le> c"
       "c \<le> \<lceil>(clientHeight t + scrollTop t) / pixelRatio w\<rceil>"
       "\<bar>c\<bar> \<le> 2 ^ 51" by blast
  have "isScrollDown w t \<longleftrightarrow> of_int (h - c) < pixelRatio w"
    using h(1) c(1) by (simp add: isScrollDown_def assms(1) sub64_of_int [OF h(4) c(4)])
  then show ?thesis using that h c by simp
qed

lemma toDouble_quotient_exact:
  assumes "r = 1 \<or> r = 2 \<or> r = 4" and "x \<in> \<int>" and "\<bar>x / r\<bar> < 2 ^ 51"
  shows "toDouble (x / r) = Finite (x / r)"
proof -
  from assms(2) obtain n where n: "x = of_int n" by (auto elim: Ints_cases)
  from assms(1) obtain k :: nat where k: "r = 2 ^ k" "k \<le> 2"
  proof (elim disjE)
    assume "r = 1" then show ?thesis using that [of 0] by simp
  next
    assume "r = 2" then show ?thesis using that [of 1] by simp
  next
    assume "r = 4" then show ?thesis using that [of 2] by simp
  qed
  have "\<bar>x\<bar> < 2 ^ 51 * r" using assms(3) k(1) by (simp add: pos_divide_less_eq)
  also have "\<dots> \<le> 2 ^ 51 * 4" using assms(1) by auto
  finally have "\<bar>(of_int n :: rat)\<bar> < 2 ^ 53" by (simp add: n)
  then have "(of_int \<bar>n\<bar> :: rat) < of_int (2 ^ 53)" by simp
  then have "\<bar>n\<bar> < 2 ^ 53" by (simp only: of_int_less_iff)
  then have "toDouble (of_int n / 2 ^ k) = Finite (of_int n / 2 ^ k)"
    using k(2) by (intro toDouble_exact) simp_all
  then show ?thesis by (simp add: n k(1))
qed


text \<open>
  The definition rounds where the language rounds. With the ratio 1.3, the offset 41.7
  and the heights 100 and 143, the sum rounds to the double below 141.7 and the floors are
  110 and 108: not scrolled down, although the exact gap is below the ratio. With the ratio
  1.1 and the heights 9 and 11, the quotient 11 / 1.1 rounds up to 10 and the floors are
  10 and 8. And 0.1 + 0.2 is the double 0.30000000000000004.
\<close>

lemma isScrollDown_rounds:
  "\<not> isScrollDown ratio13 fractional
   \<and> scrollHeight fractional - (clientHeight fractional + scrollTop fractional)
       \<le> pixelRatio ratio13
   \<and> \<not> isScrollDown ratio11 elevenTall
   \<and> isScrollDown_exact tenths"
  by code_simp

text \<open>
  C1, as stated, fails. With a device pixel ratio of 2, a target whose content ends three
  units below the viewport counts as scrolled down, although three is neither below the
  ratio nor below its inverse nor below one. In the copy of the class that compares for
  equality, a target half a unit past the end does not count as scrolled down.
\<close>

theorem isScrollDown_counterexample:
  "isScrollDown retinaWindow threeShort
   \<and> \<not> (scrollHeight threeShort - (clientHeight threeShort + scrollTop threeShort)
          < pixelRatio retinaWindow)
   \<and> \<not> (scrollHeight threeShort - (clientHeight threeShort + scrollTop threeShort)
          < 1 / pixelRatio retinaWindow)
   \<and> \<not> (scrollHeight threeShort - (clientHeight threeShort + scrollTop threeShort) < 1)
   \<and> \<not> isScrollDown_exact halfPast
   \<and> scrollHeight halfPast - (clientHeight halfPast + scrollTop halfPast)
          < pixelRatio plainWindow"
  by code_simp

text \<open>
  C1, amended. Let \<open>r\<close> be the device pixel ratio (1 when it is unset or zero), positive,
  let the sum \<open>clientHeight + scrollTop\<close> be a double, and let both quotients by \<open>r\<close> be
  below \<open>2 ^ 51\<close> in size. Then \<open>isScrollDown\<close> is true whenever
  \<open>scrollHeight - (clientHeight + scrollTop)\<close> is at most \<open>r * (\<lceil>r\<rceil> - 2)\<close> and false
  whenever that difference reaches \<open>r * (\<lceil>r\<rceil> + 1)\<close>, and it is true wherever the equality
  test of the other copy is true. With integral metrics and a ratio of 1, 2 or 4 no
  division rounds: it is true iff the floor of \<open>scrollHeight / r\<close> minus the floor of
  \<open>(clientHeight + scrollTop) / r\<close> is below \<open>r\<close>, hence true whenever the difference is at
  most \<open>r * (r - 1)\<close> and false whenever it reaches \<open>r * r\<close>. With integral metrics and
  ratio 1 it is true iff the difference is below 1.
\<close>

theorem isScrollDown_tolerance:
  assumes "0 < pixelRatio w"
    and "add64 (clientHeight t) (scrollTop t) = Finite (clientHeight t + scrollTop t)"
    and "\<bar>scrollHeight t / pixelRatio w\<bar> < 2 ^ 51"
    and "\<bar>(clientHeight t + scrollTop t) / pixelRatio w\<bar> < 2 ^ 51"
  shows "(scrollHeight t - (clientHeight t + scrollTop t)
            \<le> pixelRatio w * (of_int \<lceil>pixelRatio w\<rceil> - 2) \<longrightarrow> isScrollDown w t)
       \<and> (isScrollDown w t \<longrightarrow>
            scrollHeight t - (clientHeight t + scrollTop t)
              < pixelRatio w * (of_int \<lceil>pixelRatio w\<rceil> + 1))
       \<and> (isScrollDown_exact t \<longrightarrow> isScrollDown w t)
       \<and> ((pixelRatio w = 1 \<or> pixelRatio w = 2 \<or> pixelRatio w = 4)
            \<and> scrollHeight t \<in> \<int> \<and> clientHeight t + scrollTop t \<in> \<int> \<longrightarrow>
            (isScrollDown w t \<longleftrightarrow>
               of_int (\<lfloor>scrollHeight t / pixelRatio w\<rfloor>
                       - \<lfloor>(clientHeight t + scrollTop t) / pixelRatio w\<rfloor>) < pixelRatio w)
            \<and> (scrollHeight t - (clientHeight t + scrollTop t)
                  \<le> pixelRatio w * (pixelRatio w - 1) \<longrightarrow> isScrollDown w t)
            \<and> (isScrollDown w t \<longrightarrow>
                  scrollHeight t - (clientHeight t + scrollTop t)
                    < pixelRatio w * pixelRatio w))
       \<and> (pixelRatio w = 1 \<and> scrollHeight t \<in> \<int> \<and> clientHeight t + scrollTop t \<in> \<int> \<longrightarrow>
            (isScrollDown w t \<longleftrightarrow> scrollHeight t - (clientHeight t + scrollTop t) < 1))"
proof -
  define r where "r = pixelRatio w"
  define a where "a = scrollHeight t / r"
  define b where "b = (clientHeight t + scrollTop t) / r"
  have r: "0 < r" using assms(1) by (simp add: r_def)
  have d: "scrollHeight t - (clientHeight t + scrollTop t) = r * (a - b)"
    using r by (simp add: a_def b_def right_diff_distrib)
  from isScrollDown_floors [OF assms(2-4)] obtain h c where
    hc: "isScrollDown w t \<longleftrightarrow> of_int (h - c) < r"
      "\<lfloor>a\<rfloor> \<le> h" "h \<le> \<lceil>a\<rceil>" "\<lfloor>b\<rfloor> \<le> c" "c \<le> \<lceil>b\<rceil>"
      "floor64 (div64 (Finite (scrollHeight t)) r) = Finite (of_int h)"
      "floor64 (div64 (Finite (clientHeight t + scrollTop t)) r) = Finite (of_int c)"
    unfolding a_def b_def r_def by blast
  have down: "isScrollDown w t \<longleftrightarrow> h - c < \<lceil>r\<rceil>"
    by (simp add: hc(1) less_ceiling_iff)
  have ca: "\<lceil>a\<rceil> \<le> \<lfloor>a\<rfloor> + 1" and cb: "\<lceil>b\<rceil> \<le> \<lfloor>b\<rfloor> + 1"
    using ceiling_diff_floor_le_1 [of a] ceiling_diff_floor_le_1 [of b] by simp_all
  have c1: "isScrollDown w t" if "r * (a - b) \<le> r * (of_int \<lceil>r\<rceil> - 2)"
  proof -
    from that r have "a - b \<le> of_int (\<lceil>r\<rceil> - 2)" by simp
    then have "\<lfloor>a\<rfloor> - \<lfloor>b\<rfloor> \<le> \<lceil>r\<rceil> - 2" by (rule floor_diff_le)
    with hc(3) hc(4) ca show ?thesis unfolding down by linarith
  qed
  have c2: "r * (a - b) < r * (of_int \<lceil>r\<rceil> + 1)" if "isScrollDown w t"
  proof -
    from that hc(2) hc(5) cb have "\<lfloor>a\<rfloor> - \<lfloor>b\<rfloor> < \<lceil>r\<rceil> + 1" unfolding down by linarith
    then have "a - b < of_int (\<lceil>r\<rceil> + 1)" by (rule floor_diff_less)
    then show ?thesis using r by simp
  qed
  have c3: "isScrollDown w t" if "isScrollDown_exact t"
  proof -
    from that assms(2) have "scrollHeight t = clientHeight t + scrollTop t"
      by (simp add: isScrollDown_exact_def add64_def add.commute)
    with hc(6,7) have "(of_int h :: rat) = of_int c" by simp
    then have "h = c" by simp
    then show ?thesis using r by (simp add: hc(1))
  qed
  have c4: "(isScrollDown w t \<longleftrightarrow> of_int (\<lfloor>a\<rfloor> - \<lfloor>b\<rfloor>) < r)
          \<and> (r * (a - b) \<le> r * (r - 1) \<longrightarrow> isScrollDown w t)
          \<and> (isScrollDown w t \<longrightarrow> r * (a - b) < r * r)"
    if p: "r = 1 \<or> r = 2 \<or> r = 4" and i: "scrollHeight t \<in> \<int>" "clientHeight t + scrollTop t \<in> \<int>"
  proof -
    have "toDouble a = Finite a" unfolding a_def
      using p i(1) assms(3) by (intro toDouble_quotient_exact) (simp_all add: r_def)
    with hc(6) have "(of_int h :: rat) = of_int \<lfloor>a\<rfloor>" by (simp add: a_def)
    then have h: "h = \<lfloor>a\<rfloor>" by simp
    have "toDouble b = Finite b" unfolding b_def
      using p i(2) assms(4) by (intro toDouble_quotient_exact) (simp_all add: r_def)
    with hc(7) have "(of_int c :: rat) = of_int \<lfloor>b\<rfloor>" by (simp add: b_def)
    then have c: "c = \<lfloor>b\<rfloor>" by simp
    from p have cr: "of_int \<lceil>r\<rceil> = r" by auto
    have e: "isScrollDown w t \<longleftrightarrow> \<lfloor>a\<rfloor> - \<lfloor>b\<rfloor> < \<lceil>r\<rceil>" by (simp add: down h c)
    have "isScrollDown w t" if "r * (a - b) \<le> r * (r - 1)"
    proof -
      from that r have "a - b \<le> of_int (\<lceil>r\<rceil> - 1)" by (simp add: cr)
      then have "\<lfloor>a\<rfloor> - \<lfloor>b\<rfloor> \<le> \<lceil>r\<rceil> - 1" by (rule floor_diff_le)
      then show ?thesis by (simp add: e)
    qed
    moreover have "r * (a - b) < r * r" if "isScrollDown w t"
    proof -
      from that have "a - b < of_int \<lceil>r\<rceil>" unfolding e by (rule floor_diff_less)
      then show ?thesis using r by (simp add: cr)
    qed
    ultimately show ?thesis by (simp add: hc(1) h c)
  qed
  have c5: "isScrollDown w t \<longleftrightarrow> r * (a - b) < 1"
    if p: "r = 1" and i: "scrollHeight t \<in> \<int>" "clientHeight t + scrollTop t \<in> \<int>"
  proof -
    from i obtain m n where mn: "scrollHeight t = of_int m" "clientHeight t + scrollTop t = of_int n"
      by (auto elim!: Ints_cases)
    from c4 [OF _ i] p have "isScrollDown w t \<longleftrightarrow> of_int (\<lfloor>a\<rfloor> - \<lfloor>b\<rfloor>) < (1::rat)" by simp
    then show ?thesis using p by (simp add: a_def b_def mn)
  qed
  show ?thesis using c1 c2 c3 c4 c5 unfolding d r_def a_def b_def by blast
qed

theorem isScrollDown_tolerance_witness:
  "0 < pixelRatio retinaWindow
   \<and> isScrollDown retinaWindow threeShort
   \<and> scrollHeight threeShort - (clientHeight threeShort + scrollTop threeShort)
       < pixelRatio retinaWindow * pixelRatio retinaWindow
   \<and> pixelRatio plainWindow = 1
   \<and> isScrollDown_exact scrolledDown
   \<and> isScrollDown plainWindow scrolledDown
   \<and> scrollHeight scrolledDown - (clientHeight scrolledDown + scrollTop scrolledDown) < 1"
proof -
  have r2: "0 < pixelRatio retinaWindow" "pixelRatio retinaWindow = 2" by code_simp+
  have r1: "0 < pixelRatio plainWindow" "pixelRatio plainWindow = 1" by code_simp+
  have s2: "add64 (clientHeight threeShort) (scrollTop threeShort)
              = Finite (clientHeight threeShort + scrollTop threeShort)"
    "\<bar>scrollHeight threeShort / pixelRatio retinaWindow\<bar> < 2 ^ 51"
    "\<bar>(clientHeight threeShort + scrollTop threeShort) / pixelRatio retinaWindow\<bar> < 2 ^ 51"
    by code_simp+
  have s1: "add64 (clientHeight scrolledDown) (scrollTop scrolledDown)
              = Finite (clientHeight scrolledDown + scrollTop scrolledDown)"
    "\<bar>scrollHeight scrolledDown / pixelRatio plainWindow\<bar> < 2 ^ 51"
    "\<bar>(clientHeight scrolledDown + scrollTop scrolledDown) / pixelRatio plainWindow\<bar> < 2 ^ 51"
    by code_simp+
  have i2: "scrollHeight threeShort \<in> \<int>" "clientHeight threeShort + scrollTop threeShort \<in> \<int>"
    by (simp_all add: threeShort_def)
  have d: "isScrollDown retinaWindow threeShort" by code_simp
  have e: "isScrollDown_exact scrolledDown" by code_simp
  from isScrollDown_tolerance [OF r2(1) s2] r2(2) i2 d
  have "scrollHeight threeShort - (clientHeight threeShort + scrollTop threeShort)
          < pixelRatio retinaWindow * pixelRatio retinaWindow"
    by blast
  moreover from isScrollDown_tolerance [OF r1(1) s1] e
  have "isScrollDown plainWindow scrolledDown" by blast
  moreover have
    "scrollHeight scrolledDown - (clientHeight scrolledDown + scrollTop scrolledDown) < 1"
    by (simp add: scrolledDown_def)
  ultimately show ?thesis using r2 r1 d e by blast
qed

subsection \<open>What one reconciliation does\<close>

lemma rescroll_frame [simp]:
  "window (rescroll s) = window s"
  "scrollLock (rescroll s) = scrollLock s"
  "interval (rescroll s) = interval s"
  "observer (rescroll s) = observer s"
  "observing (rescroll s) = observing s"
  "timers (rescroll s) = timers s"
  "timerCount (rescroll s) = timerCount s"
  "scrollListener (rescroll s) = scrollListener s"
  "resizeListener (rescroll s) = resizeListener s"
  "loadListeners (rescroll s) = loadListeners s"
  "listenerCount (rescroll s) = listenerCount s"
  by (simp_all add: rescroll_def Let_def split: lock_value.split)

lemma shouldRescroll_iff:
  "shouldRescroll s =
     (case scrollLock s of
        Falsy f \<Rightarrow> False
      | LockObject l \<Rightarrow> lock_when l (window s) (target s))"
  by (simp add: shouldRescroll_def isScrollLocked_def split: lock_value.split)

lemma rescroll_unlocked:
  "scrollLock s = Falsy f \<Longrightarrow> rescroll s = s\<lparr>trace := Called_rescroll # trace s\<rparr>"
  by (simp add: rescroll_def shouldRescroll_iff)

lemma rescroll_idle:
  "scrollLock s = LockObject l \<Longrightarrow> \<not> lock_when l (window s) (target s) \<Longrightarrow>
   rescroll s = s\<lparr>trace := Called_rescroll # trace s\<rparr>"
  by (simp add: rescroll_def shouldRescroll_iff)

lemma rescroll_fires:
  "scrollLock s = LockObject l \<Longrightarrow> lock_when l (window s) (target s) \<Longrightarrow>
   rescroll s = s\<lparr>rescrolling := True,
                  target := (target s)\<lparr>scrollTop := lock_at l (window s) (target s)\<rparr>,
                  trace := Write_scrollTop InRescroll (lock_at l (window s) (target s))
                           # Called_rescroll # trace s\<rparr>"
  by (simp add: rescroll_def shouldRescroll_iff Let_def)

lemma rescroll_cases:
  obtains (idle) "rescroll s = s\<lparr>trace := Called_rescroll # trace s\<rparr>"
  | (fires) v where
      "rescroll s = s\<lparr>rescrolling := True, target := (target s)\<lparr>scrollTop := v\<rparr>,
                       trace := Write_scrollTop InRescroll v # Called_rescroll # trace s\<rparr>"
proof (cases "scrollLock s")
  case (Falsy f)
  then show ?thesis using idle by (simp add: rescroll_unlocked)
next
  case (LockObject l)
  then show ?thesis using idle fires
    by (cases "lock_when l (window s) (target s)") (simp_all add: rescroll_idle rescroll_fires)
qed

lemma listenToImageLoad_eq:
  "listenToImageLoad i s =
     s\<lparr>listenerCount := Suc (listenerCount s),
       loadListeners := loadListeners s @ [(i, listenerCount s)],
       trace := AddEventListener (LoadEvt i) # trace s\<rparr>"
  by (simp add: listenToImageLoad_def getImageLoadListener_def)

lemma imageLoadListener_eq:
  "imageLoadListener l i s =
     (rescroll s)\<lparr>loadListeners := removeAll (i, l) (loadListeners s),
                  trace := RemoveEventListener (LoadEvt i) # trace (rescroll s)\<rparr>"
  by (simp add: imageLoadListener_def Let_def)

lemma rescrolling_onScroll: "rescrolling (onScroll s) = False"
  by (simp add: onScroll_def Let_def)

lemma onScroll_frame [simp]:
  "interval (onScroll s) = interval s"
  "observer (onScroll s) = observer s"
  "observing (onScroll s) = observing s"
  "timers (onScroll s) = timers s"
  "loadListeners (onScroll s) = loadListeners s"
  "listenerCount (onScroll s) = listenerCount s"
  by (simp_all add: onScroll_def Let_def setScrollLockAtBottom_def setScrollLock_def
      removeScrollLock_def)

lemma scrollLock_constructor_default:
  "scrollLock (constructor w (defaultOptions t)) = LockObject bottomLock"
  by (simp add: constructor_def Let_def setupListeners_def setInitialScrollLock_def
      setScrollLockAtBottom_def setScrollLock_def defaultOptions_def)

lemma bottomLock_neq_topLock: "bottomLock \<noteq> topLock"
proof
  assume "bottomLock = topLock"
  then have "lock_at bottomLock plainWindow midway = lock_at topLock plainWindow midway"
    by simp
  then show False by (simp add: bottomLock_def topLock_def midway_def)
qed

subsection \<open>Every event is made of a few steps\<close>

lemma fold_fold_concat:
  "fold (\<lambda>x. fold f (g x)) xs s = fold f (concat (map g xs)) s"
  by (induction xs arbitrary: s) simp_all

lemma fold_preserves:
  assumes "P s" and "\<And>x s. P s \<Longrightarrow> P (f x s)"
  shows "P (fold f xs s)"
  using assms(1) by (induction xs arbitrary: s) (simp_all add: assms(2))

lemma addImageListeners_flat:
  "addImageListeners ms s = fold listenToImageLoad (addedImages ms) s"
proof -
  have "addImageListeners ms s
      = fold (\<lambda>node. fold listenToImageLoad (imagesToListen node))
             (concat (map addedNodes ms)) s"
    unfolding addImageListeners_def by (rule fold_fold_concat)
  also have "\<dots> = fold listenToImageLoad (addedImages ms) s"
    unfolding addedImages_def by (rule fold_fold_concat)
  finally show ?thesis .
qed

lemma addImageListeners_preserves:
  assumes "P s" and "\<And>i s. P s \<Longrightarrow> P (listenToImageLoad i s)"
  shows "P (addImageListeners ms s)"
  unfolding addImageListeners_flat using assms by (rule fold_preserves)

lemma dispatchLoad_preserves:
  assumes "P s" and "\<And>l s. P s \<Longrightarrow> P (imageLoadListener l i s)"
  shows "P (dispatchLoad i ls s)"
  using assms(1) by (induction ls arbitrary: s) (simp_all add: assms(2))

lemma step_preserves_engine:
  assumes "P s"
    and "\<And>s. P s \<Longrightarrow> P (rescroll s)"
    and "\<And>s. P s \<Longrightarrow> P (onScroll s)"
    and "\<And>s. P s \<Longrightarrow> P (close s)"
    and "\<And>i s. P s \<Longrightarrow> P (listenToImageLoad i s)"
    and "\<And>l i s. P s \<Longrightarrow> P (imageLoadListener l i s)"
    and "\<And>l s. P s \<Longrightarrow> P (s\<lparr>scrollLock := l\<rparr>)"
    and "\<And>t. e \<noteq> Host_target t"
  shows "P (step e s)"
proof (cases e)
  case (Notify_mutation ms)
  then show ?thesis
    using assms(1,2,5) by (simp add: onMutation_def addImageListeners_preserves)
next
  case (Notify_load i)
  then show ?thesis using assms(1,6) by (simp add: dispatchLoad_preserves)
qed (use assms in \<open>simp_all add: onResize_def setScrollLock_def removeScrollLock_def
      setScrollLockAtBottom_def setScrollLockAtTop_def setScrollLockAtCurrentPosition_def\<close>)

lemma step_preserves:
  assumes "P s"
    and "\<And>s. P s \<Longrightarrow> P (rescroll s)"
    and "\<And>s. P s \<Longrightarrow> P (onScroll s)"
    and "\<And>s. P s \<Longrightarrow> P (close s)"
    and "\<And>i s. P s \<Longrightarrow> P (listenToImageLoad i s)"
    and "\<And>l i s. P s \<Longrightarrow> P (imageLoadListener l i s)"
    and "\<And>l s. P s \<Longrightarrow> P (s\<lparr>scrollLock := l\<rparr>)"
    and "\<And>t s. P s \<Longrightarrow> P (s\<lparr>target := t\<rparr>)"
  shows "P (step e s)"
proof (cases "\<exists>t. e = Host_target t")
  case True
  then show ?thesis using assms(1,8) by auto
next
  case False
  then have "\<And>t. e \<noteq> Host_target t" by simp
  with assms(1-7) show ?thesis by (rule step_preserves_engine)
qed

lemma run_preserves:
  assumes "P s"
    and "\<And>s. P s \<Longrightarrow> P (rescroll s)"
    and "\<And>s. P s \<Longrightarrow> P (onScroll s)"
    and "\<And>s. P s \<Longrightarrow> P (close s)"
    and "\<And>i s. P s \<Longrightarrow> P (listenToImageLoad i s)"
    and "\<And>l i s. P s \<Longrightarrow> P (imageLoadListener l i s)"
    and "\<And>l s. P s \<Longrightarrow> P (s\<lparr>scrollLock := l\<rparr>)"
    and "\<And>t s. P s \<Longrightarrow> P (s\<lparr>target := t\<rparr>)"
  shows "P (run es s)"
  unfolding run_def using assms(1)
proof (rule fold_preserves)
  fix e s assume "P s"
  then show "P (step e s)" by (rule step_preserves) (fact assms(2-))+
qed

subsection \<open>Where the scroll offset is written\<close>

lemma directWrites_rescroll:
  "filter isDirectWrite (trace (rescroll s)) = filter isDirectWrite (trace s)"
  by (rule rescroll_cases [of s]) simp_all

lemma directWrites_onScroll:
  "filter isDirectWrite (trace (onScroll s)) = filter isDirectWrite (trace s)"
  by (simp add: onScroll_def Let_def setScrollLockAtBottom_def setScrollLock_def
      removeScrollLock_def directWrites_rescroll)

lemma directWrites_close:
  "filter isDirectWrite (trace (close s)) = filter isDirectWrite (trace s)"
  by (simp add: close_def Let_def)

lemma directWrites_run:
  "filter isDirectWrite (trace (run es s)) = filter isDirectWrite (trace s)"
proof -
  define c where "c = filter isDirectWrite (trace s)"
  have "filter isDirectWrite (trace (run es s)) = c"
    by (rule run_preserves)
       (simp_all add: c_def directWrites_rescroll directWrites_onScroll directWrites_close
         listenToImageLoad_eq imageLoadListener_eq)
  then show ?thesis by (simp add: c_def)
qed

lemma directWrites_constructor:
  "filter isDirectWrite (trace (constructor w opts)) =
     (case options_position opts of
        PosNumber n \<Rightarrow> [Write_scrollTop InSetInitialScrollLock n]
      | PosString str \<Rightarrow> []
      | PosAbsent \<Rightarrow> [])"
  by (simp add: constructor_def Let_def directWrites_rescroll setupListeners_def
      setInitialScrollLock_def setScrollLockAtBottom_def setScrollLockAtTop_def
      setScrollLock_def newObject_def split: position.split)

text \<open>
  The trace misses no assignment: an event other than an outside change of the target
  leaves the target as it was unless it adds a write to the trace.
\<close>

lemma tracedFrom_rescroll: "tracedFrom s s' \<Longrightarrow> tracedFrom s (rescroll s')"
  by (rule rescroll_cases [of s']) (auto simp add: tracedFrom_def writes_def)

lemma offset_changes_are_traced:
  assumes "\<And>t. e \<noteq> Host_target t"
  shows "tracedFrom s (step e s)"
proof (rule step_preserves_engine [where P = "tracedFrom s"])
  show "tracedFrom s s" by (simp add: tracedFrom_def)
next
  fix s' assume "tracedFrom s s'"
  then show "tracedFrom s (onScroll s')"
    using tracedFrom_rescroll [of s "s'\<lparr>trace := Called_onScroll # trace s',
                                        scrollLock := LockObject bottomLock\<rparr>"]
    by (auto simp add: onScroll_def Let_def setScrollLockAtBottom_def setScrollLock_def
        removeScrollLock_def tracedFrom_def writes_def)
next
  fix l i s' assume "tracedFrom s s'"
  then have "tracedFrom s (rescroll s')" by (rule tracedFrom_rescroll)
  then show "tracedFrom s (imageLoadListener l i s')"
    by (simp add: imageLoadListener_eq tracedFrom_def writes_def)
qed (use assms in \<open>simp_all add: tracedFrom_rescroll\<close>,
     simp_all add: tracedFrom_def writes_def close_def Let_def listenToImageLoad_eq)

text \<open>
  C2, as stated, fails. Constructed with the numeric position 50, the engine assigns 50 to
  the scroll offset in \<open>setInitialScrollLock\<close>, outside \<open>rescroll\<close>, and installs no lock.
\<close>

theorem initial_position_written_directly:
  "filter isDirectWrite (trace reader) = [Write_scrollTop InSetInitialScrollLock 50]
   \<and> \<not> isScrollLocked reader"
  by code_simp

text \<open>
  C2, amended. No event after construction (no notification and no call of a public
  method) assigns the scroll offset outside \<open>rescroll\<close>; in every execution the one
  assignment outside \<open>rescroll\<close> is the constructor's \<open>setInitialScrollLock\<close> storing a
  numeric initial position, and there is none when the position is a string or absent.
\<close>

theorem scrollTop_written_in_rescroll:
  "filter isDirectWrite (trace (run es s)) = filter isDirectWrite (trace s)
   \<and> filter isDirectWrite (trace (run es (constructor w opts))) =
       (case options_position opts of
          PosNumber n \<Rightarrow> [Write_scrollTop InSetInitialScrollLock n]
        | PosString str \<Rightarrow> []
        | PosAbsent \<Rightarrow> [])"
  by (simp add: directWrites_run directWrites_constructor)

theorem scrollTop_written_in_rescroll_witness:
  "filter isDirectWrite
     (trace (run [Call_setScrollLockAtBottom, Host_target taller, Notify_resize,
                  Notify_scroll, Call_close]
               (constructor plainWindow (defaultOptions midway)))) = []"
  using scrollTop_written_in_rescroll
    [of "[Call_setScrollLockAtBottom, Host_target taller, Notify_resize, Notify_scroll,
          Call_close]" chatLog plainWindow "defaultOptions midway"]
  by (simp add: defaultOptions_def)

subsection \<open>Locking at the current position\<close>

lemma setScrollLockAtCurrentPosition_silent:
  "setScrollLockAtCurrentPosition s
     = s\<lparr>scrollLock := LockObject (currentPositionLock (scrollHeight (target s)))\<rparr>"
  by (simp add: setScrollLockAtCurrentPosition_def setScrollLock_def)

text \<open>
  After \<open>setScrollLockAtCurrentPosition\<close> and a growth of the content by \<open>d\<close>, \<open>rescroll\<close>
  assigns \<open>d\<close> itself, whatever the offset was when the lock was set.
\<close>

lemma setScrollLockAtCurrentPosition_rescroll:
  "scrollTop (target (rescroll
       ((setScrollLockAtCurrentPosition s)
          \<lparr>target := (target s)\<lparr>scrollHeight := scrollHeight (target s) + d\<rparr>\<rparr>))) = d"
  by (simp add: setScrollLockAtCurrentPosition_silent rescroll_fires currentPositionLock_def)

text \<open>
  C3. \<open>setScrollLockAtCurrentPosition\<close> assigns nothing: trace and target are as before.
  The second half of the claim does not hold of the code. With the offset at 50 when the
  lock is set and the content then growing by 100, the reconciliation on the next resize
  leaves the offset at 100, not at 150; without any growth it leaves the offset at 0.
\<close>

theorem setScrollLockAtCurrentPosition_loses_offset:
  "scrollTop (target reader) = 50
   \<and> trace (setScrollLockAtCurrentPosition reader) = trace reader
   \<and> target (setScrollLockAtCurrentPosition reader) = target reader
   \<and> scrollHeight grown - scrollHeight (target reader) = 100
   \<and> scrollTop (target (run [Call_setScrollLockAtCurrentPosition, Host_target grown,
                               Notify_resize] reader)) = 100
   \<and> writes (trace (run [Call_setScrollLockAtCurrentPosition, Host_target grown,
                          Notify_resize] reader))
       = [Write_scrollTop InRescroll 100, Write_scrollTop InSetInitialScrollLock 50]
   \<and> scrollTop (target (run [Call_setScrollLockAtCurrentPosition, Notify_resize] reader)) = 0"
  by code_simp

subsection \<open>After close\<close>

lemma removeAll_all_eq: "list_all (\<lambda>h. h = x) xs \<Longrightarrow> removeAll x xs = []"
  by (induction xs) simp_all

lemma hostOwned_run: "hostOwned s \<Longrightarrow> hostOwned (run es s)"
  by (rule run_preserves)
     (auto simp add: hostOwned_def listenToImageLoad_eq imageLoadListener_eq close_def Let_def
       removeAll_all_eq)

lemma hostOwned_constructor: "hostOwned (constructor w opts)"
  by (simp add: hostOwned_def constructor_def Let_def setupListeners_def
      setInitialScrollLock_def setScrollLockAtBottom_def setScrollLockAtTop_def
      setScrollLock_def newObject_def DEFAULT_INTERVAL_FALLBACK_def
      split: position.split option.split lock_value.split)

lemma detached_close: "hostOwned s \<Longrightarrow> detached (close s)"
  by (auto simp add: hostOwned_def detached_def close_def Let_def removeAll_all_eq)

lemma detached_step:
  "detached s \<Longrightarrow> isNotification e \<Longrightarrow> detached (step e s) \<and> trace (step e s) = trace s"
  by (cases e) (simp_all add: detached_def)

lemma detached_run:
  "detached s \<Longrightarrow> list_all isNotification es \<Longrightarrow>
   detached (run es s) \<and> trace (run es s) = trace s"
proof (induction es arbitrary: s)
  case Nil
  then show ?case by (simp add: run_def)
next
  case (Cons e es)
  from Cons.prems have e: "detached (step e s) \<and> trace (step e s) = trace s"
    by (simp add: detached_step)
  with Cons.prems Cons.IH [of "step e s"] show ?case by (simp add: run_def)
qed

text \<open>
  C4, as stated, fails for the image-load notification. A load listener attached before
  \<open>close\<close> stays on its image: when the image loads after \<open>close\<close> and the content has
  grown, the listener runs \<open>rescroll\<close>, which assigns the scroll offset.
\<close>

theorem load_listener_survives_close:
  "trace (run [Notify_mutation photoAdded, Call_close, Host_target taller, Notify_load 1]
            chatLog)
     = RemoveEventListener (LoadEvt 1) # Write_scrollTop InRescroll 1200 # Called_rescroll
       # trace (run [Notify_mutation photoAdded, Call_close, Host_target taller] chatLog)"
  by code_simp

text \<open>
  C4, amended. After \<open>close\<close> on an engine in any state it can reach from its constructor,
  no structural-change, scroll or resize notification and no tick of the fallback timer
  runs any engine code, so none of them causes a write of the scroll offset: the trace
  stays as \<open>close\<close> left it.
\<close>

theorem close_detaches:
  assumes "list_all isNotification es"
  shows "trace (run es (close (run es0 (constructor w opts))))
           = trace (close (run es0 (constructor w opts)))"
proof -
  have "hostOwned (run es0 (constructor w opts))"
    by (intro hostOwned_run hostOwned_constructor)
  then have "detached (close (run es0 (constructor w opts)))" by (rule detached_close)
  then show ?thesis using assms by (simp add: detached_run)
qed

theorem close_detaches_witness:
  "list_all isNotification
     [Host_target taller, Notify_tick 1, Notify_mutation photoAdded, Notify_scroll,
      Notify_resize]
   \<and> trace (run [Host_target taller, Notify_tick 1, Notify_mutation photoAdded,
                  Notify_scroll, Notify_resize]
               (close (run [Notify_tick 1] polledLog)))
     = trace (close (run [Notify_tick 1] polledLog))"
  using close_detaches
    [of "[Host_target taller, Notify_tick 1, Notify_mutation photoAdded, Notify_scroll,
          Notify_resize]"
        "[Notify_tick 1]" pollingWindow "defaultOptions midway"]
  by (simp add: polledLog_def)

subsection \<open>The scroll handler\<close>

text \<open>
  C5. On a scroll notification with the flag clear: at the bottom with no lock, the
  bottom lock is installed; away from the bottom, the lock is cleared; and the top lock is
  the active lock afterwards only if it was before, so the handler never installs it.
\<close>

theorem onScroll_policy:
  assumes "\<not> rescrolling s"
  shows "(isScrollDown (window s) (target s) \<and> \<not> isScrollLocked s \<longrightarrow>
            scrollLock (onScroll s) = LockObject bottomLock)
       \<and> (\<not> isScrollDown (window s) (target s) \<longrightarrow>
            scrollLock (onScroll s) = Falsy JsNull \<and> \<not> isScrollLocked (onScroll s))
       \<and> (scrollLock (onScroll s) = LockObject topLock \<longrightarrow> scrollLock s = LockObject topLock)"
  using assms bottomLock_neq_topLock
  by (auto simp add: onScroll_def Let_def setScrollLockAtBottom_def setScrollLock_def
      removeScrollLock_def isScrollLocked_def)

theorem onScroll_policy_witness:
  "\<not> rescrolling atEnd \<and> isScrollDown (window atEnd) (target atEnd)
   \<and> \<not> isScrollLocked atEnd \<and> scrollLock (onScroll atEnd) = LockObject bottomLock
   \<and> \<not> rescrolling (run [Notify_scroll, Host_target midway] chatLog)
   \<and> isScrollLocked (run [Notify_scroll, Host_target midway] chatLog)
   \<and> \<not> isScrollLocked (onScroll (run [Notify_scroll, Host_target midway] chatLog))"
proof -
  have a: "\<not> rescrolling atEnd" "isScrollDown (window atEnd) (target atEnd)"
    "\<not> isScrollLocked atEnd"
    by code_simp+
  let ?s = "run [Notify_scroll, Host_target midway] chatLog"
  have b: "\<not> rescrolling ?s" "\<not> isScrollDown (window ?s) (target ?s)" "isScrollLocked ?s"
    by code_simp+
  from onScroll_policy [OF a(1)] a onScroll_policy [OF b(1)] b show ?thesis by blast
qed

subsection \<open>The suppression flag\<close>

lemma writtenSinceScroll_Cons:
  "writtenSinceScroll (e # tr) =
     (e \<noteq> Called_onScroll \<and> (isRescrollWrite e \<or> writtenSinceScroll tr))"
  by (auto simp add: writtenSinceScroll_def)

lemma flagJustified_rescroll: "flagJustified s \<Longrightarrow> flagJustified (rescroll s)"
  by (rule rescroll_cases [of s]) (simp_all add: flagJustified_def writtenSinceScroll_Cons)

lemma flagJustified_onScroll: "flagJustified (onScroll s)"
  by (simp add: flagJustified_def rescrolling_onScroll)

lemma flagJustified_close: "flagJustified s \<Longrightarrow> flagJustified (close s)"
  by (simp add: flagJustified_def close_def Let_def writtenSinceScroll_Cons)

lemma flagJustified_run: "flagJustified s \<Longrightarrow> flagJustified (run es s)"
proof (rule run_preserves)
  fix l i s assume "flagJustified s"
  then have "flagJustified (rescroll s)" by (rule flagJustified_rescroll)
  then show "flagJustified (imageLoadListener l i s)"
    by (simp add: imageLoadListener_eq flagJustified_def writtenSinceScroll_Cons)
qed (simp_all add: flagJustified_rescroll flagJustified_onScroll flagJustified_close
      listenToImageLoad_eq, simp_all add: flagJustified_def writtenSinceScroll_Cons)

lemma flagJustified_constructor: "flagJustified (constructor w opts)"
proof -
  have 0: "flagJustified (newObject w t n)" for t n
    by (simp add: flagJustified_def newObject_def)
  have 1: "flagJustified (setInitialScrollLock p s)" if "flagJustified s" for p s
    using that
    by (auto simp add: setInitialScrollLock_def setScrollLockAtBottom_def
        setScrollLockAtTop_def setScrollLock_def split: position.split
        intro!: flagJustified_rescroll)
       (simp_all add: flagJustified_def writtenSinceScroll_Cons)
  have 2: "flagJustified (setupListeners s)" if "flagJustified s" for s
    using that
    by (simp add: setupListeners_def Let_def flagJustified_def writtenSinceScroll_Cons)
  show ?thesis
    unfolding constructor_def Let_def
    by (intro flagJustified_rescroll 2 1 0)
qed

text \<open>
  C6. In every state the engine reaches from its constructor, the flag \<open>rescrolling\<close> is
  set only if \<open>rescroll\<close> has assigned the scroll offset since the scroll handler last
  ran; and the scroll handler leaves the flag clear from every state, whichever branch it
  takes, so a delivered scroll notification always clears it.
\<close>

theorem rescrolling_only_after_write:
  "flagJustified (run es (constructor w opts))
   \<and> \<not> rescrolling (onScroll s)
   \<and> (scrollListener s \<longrightarrow> \<not> rescrolling (step Notify_scroll s))"
  by (simp add: flagJustified_run flagJustified_constructor rescrolling_onScroll)

theorem rescrolling_only_after_write_witness:
  "rescrolling chatLog \<and> writtenSinceScroll (trace chatLog)
   \<and> scrollListener chatLog \<and> \<not> rescrolling (step Notify_scroll chatLog)"
proof -
  have r: "rescrolling chatLog" by code_simp
  have l: "scrollListener chatLog" by code_simp
  from rescrolling_only_after_write [of "[]" plainWindow "defaultOptions midway" chatLog] r l
  show ?thesis by (simp add: flagJustified_def run_def chatLog_def)
qed

subsection \<open>The bottom lock\<close>

text \<open>
  C7, as stated, fails. With the bottom lock active and the viewport away from the bottom
  (the content has grown by 200 below it), \<open>when\<close> is true and \<open>rescroll\<close> assigns the
  content height to the scroll offset.
\<close>

theorem bottomLock_writes_away_from_bottom:
  "scrollLock (run [Host_target taller] chatLog) = LockObject bottomLock
   \<and> \<not> isScrollDown (window (run [Host_target taller] chatLog))
                      (target (run [Host_target taller] chatLog))
   \<and> writes (trace (rescroll (run [Host_target taller] chatLog)))
       = Write_scrollTop InRescroll 1200 # writes (trace (run [Host_target taller] chatLog))"
proof -
  let ?s = "run [Host_target taller] chatLog"
  have 1: "scrollLock ?s = LockObject bottomLock"
    by (simp add: run_def chatLog_def scrollLock_constructor_default)
  have 2: "\<not> isScrollDown (window ?s) (target ?s)" by code_simp
  then have 3: "lock_when bottomLock (window ?s) (target ?s)" by (simp add: bottomLock_def)
  have 4: "scrollHeight (target ?s) = 1200" by code_simp
  from rescroll_fires [OF 1 3] 4 have
    "writes (trace (rescroll ?s)) = Write_scrollTop InRescroll 1200 # writes (trace ?s)"
    by (simp add: bottomLock_def writes_def)
  with 1 2 show ?thesis by blast
qed

text \<open>
  C7, amended. While the bottom lock is active: with the viewport at the bottom, \<open>when\<close>
  is false and a reconciliation assigns nothing and changes no field; with the viewport
  away from the bottom, it assigns the content height to the scroll offset.
\<close>

theorem rescroll_bottomLock:
  assumes "scrollLock s = LockObject bottomLock"
  shows "(isScrollDown (window s) (target s) \<longrightarrow>
            rescroll s = s\<lparr>trace := Called_rescroll # trace s\<rparr>)
       \<and> (\<not> isScrollDown (window s) (target s) \<longrightarrow>
            writes (trace (rescroll s))
              = Write_scrollTop InRescroll (scrollHeight (target s)) # writes (trace s))"
proof (cases "isScrollDown (window s) (target s)")
  case True
  then have "\<not> lock_when bottomLock (window s) (target s)" by (simp add: bottomLock_def)
  with assms True show ?thesis by (simp add: rescroll_idle)
next
  case False
  then have "lock_when bottomLock (window s) (target s)" by (simp add: bottomLock_def)
  with assms False show ?thesis
    by (simp add: rescroll_fires writes_def) (simp add: bottomLock_def)
qed

theorem rescroll_bottomLock_witness:
  "scrollLock chatLog = LockObject bottomLock
   \<and> isScrollDown (window chatLog) (target chatLog)
   \<and> rescroll chatLog = chatLog\<lparr>trace := Called_rescroll # trace chatLog\<rparr>
   \<and> scrollLock (step (Host_target grown) chatLog) = LockObject bottomLock
   \<and> \<not> isScrollDown (window (step (Host_target grown) chatLog))
                      (target (step (Host_target grown) chatLog))
   \<and> writes (trace (rescroll (step (Host_target grown) chatLog)))
       = Write_scrollTop InRescroll 1100 # writes (trace (step (Host_target grown) chatLog))"
proof -
  let ?s = "step (Host_target grown) chatLog"
  have 1: "scrollLock chatLog = LockObject bottomLock"
    by (simp add: chatLog_def scrollLock_constructor_default)
  have 2: "isScrollDown (window chatLog) (target chatLog)" by code_simp
  have 3: "scrollLock ?s = LockObject bottomLock"
    by (simp add: chatLog_def scrollLock_constructor_default)
  have 4: "\<not> isScrollDown (window ?s) (target ?s)" by code_simp
  have 5: "scrollHeight (target ?s) = 1100" by (simp add: grown_def)
  from rescroll_bottomLock [OF 1] 2 rescroll_bottomLock [OF 3] 4 5 1 3
  show ?thesis by simp
qed

subsection \<open>Image load listeners\<close>

lemma listenersFresh_listenToImageLoad:
  "listenersFresh s \<Longrightarrow> listenersFresh (listenToImageLoad i s)"
  by (auto simp add: listenersFresh_def listenToImageLoad_eq list_all_iff)

lemma listenersFresh_imageLoadListener:
  "listenersFresh s \<Longrightarrow> listenersFresh (imageLoadListener l i s)"
  by (auto simp add: listenersFresh_def imageLoadListener_eq list_all_iff
      removeAll_filter_not_eq distinct_map_filter)

lemma listenersFresh_run: "listenersFresh s \<Longrightarrow> listenersFresh (run es s)"
  by (rule run_preserves)
     (simp_all add: listenersFresh_listenToImageLoad listenersFresh_imageLoadListener,
      simp_all add: listenersFresh_def close_def Let_def)

lemma listenersFresh_constructor: "listenersFresh (constructor w opts)"
  by (simp add: listenersFresh_def constructor_def Let_def setupListeners_def
      setInitialScrollLock_def setScrollLockAtBottom_def setScrollLockAtTop_def
      setScrollLock_def newObject_def split: position.split)

lemma listenersFresh_onMutation: "listenersFresh s \<Longrightarrow> listenersFresh (onMutation ms s)"
  unfolding onMutation_def
  by (rule addImageListeners_preserves)
     (simp_all add: listenersFresh_listenToImageLoad, simp add: listenersFresh_def)

lemma distinct_listenersOn: "listenersFresh s \<Longrightarrow> distinct (listenersOn i s)"
  by (simp add: listenersFresh_def listenersOn_def distinct_map_filter)

lemma rescrollCalls_Cons:
  "rescrollCalls (e # tr) =
     (if e = Called_rescroll then Suc (rescrollCalls tr) else rescrollCalls tr)"
  by (simp add: rescrollCalls_def)

lemma rescrollCalls_rescroll:
  "rescrollCalls (trace (rescroll s)) = Suc (rescrollCalls (trace s))"
  by (rule rescroll_cases [of s]) (simp_all add: rescrollCalls_Cons)

lemma rescrollCalls_imageLoadListener:
  "rescrollCalls (trace (imageLoadListener l i s)) = Suc (rescrollCalls (trace s))"
  by (simp add: imageLoadListener_eq rescrollCalls_rescroll rescrollCalls_Cons)

text \<open>
  Dispatching a load event to listeners that are all on the image: each runs \<open>rescroll\<close>
  once and is gone afterwards.
\<close>

lemma dispatchLoad_counts:
  assumes "distinct ls" and "\<forall>l\<in>set ls. (i, l) \<in> set (loadListeners s)"
  shows "rescrollCalls (trace (dispatchLoad i ls s)) = rescrollCalls (trace s) + length ls
       \<and> loadListeners (dispatchLoad i ls s)
           = filter (\<lambda>p. \<not> (fst p = i \<and> snd p \<in> set ls)) (loadListeners s)"
  using assms
proof (induction ls arbitrary: s)
  case Nil
  then show ?case by simp
next
  case (Cons l ls)
  let ?s = "imageLoadListener l i s"
  have ll: "loadListeners ?s = removeAll (i, l) (loadListeners s)"
    by (simp add: imageLoadListener_eq)
  from Cons.prems have "\<forall>l'\<in>set ls. (i, l') \<in> set (loadListeners ?s)"
    by (auto simp add: ll)
  with Cons.prems Cons.IH [of ?s]
  have ih: "rescrollCalls (trace (dispatchLoad i ls ?s)) = rescrollCalls (trace ?s) + length ls"
       "loadListeners (dispatchLoad i ls ?s)
          = filter (\<lambda>p. \<not> (fst p = i \<and> snd p \<in> set ls)) (loadListeners ?s)"
    by simp_all
  have "filter (\<lambda>p. \<not> (fst p = i \<and> snd p \<in> set ls)) (removeAll (i, l) (loadListeners s))
      = filter (\<lambda>p. \<not> (fst p = i \<and> snd p \<in> set (l # ls))) (loadListeners s)"
    by (auto simp add: removeAll_filter_not_eq intro!: filter_cong)
  with ih ll Cons.prems show ?case
    by (simp add: rescrollCalls_imageLoadListener)
qed

lemma load_counts:
  assumes "listenersFresh s"
  shows "rescrollCalls (trace (step (Notify_load i) s))
           = rescrollCalls (trace s) + length (listenersOn i s)"
    and "listenersOn i (step (Notify_load i) s) = []"
proof -
  have d: "distinct (listenersOn i s)" using assms by (rule distinct_listenersOn)
  have m: "\<forall>l\<in>set (listenersOn i s). (i, l) \<in> set (loadListeners s)"
    by (auto simp add: listenersOn_def)
  note c = dispatchLoad_counts [OF d m]
  from c show "rescrollCalls (trace (step (Notify_load i) s))
           = rescrollCalls (trace s) + length (listenersOn i s)" by simp
  have "filter (\<lambda>p. fst p = i)
          (filter (\<lambda>p. \<not> (fst p = i \<and> snd p \<in> set (listenersOn i s))) (loadListeners s)) = []"
    by (auto simp add: listenersOn_def filter_empty_conv intro: rev_image_eqI)
  with c show "listenersOn i (step (Notify_load i) s) = []"
    by (simp add: listenersOn_def)
qed

lemma listenersOn_fold:
  "length (listenersOn i (fold listenToImageLoad js s))
     = length (listenersOn i s) + count_list js i"
  by (induction js arbitrary: s) (simp_all add: listenToImageLoad_eq listenersOn_def)

lemma listenersOn_onMutation:
  "length (listenersOn i (onMutation ms s))
     = length (listenersOn i s) + count_list (addedImages ms) i"
  by (simp add: onMutation_def addImageListeners_flat listenersOn_fold)
     (simp add: listenersOn_def)

text \<open>
  C8, as stated, fails. Each report of an added image attaches one more listener, a new
  closure, so listeners on one element accumulate: after two mutation batches that both
  report image 1 as added, the element carries two listeners, and its one load notification
  runs \<open>rescroll\<close> twice.
\<close>

theorem load_listeners_accumulate:
  "listenersOn 1 (run [Notify_mutation photoAdded, Notify_mutation photoAdded] chatLog)
     = [0, 1]
   \<and> rescrollCalls (trace (run [Notify_mutation photoAdded, Notify_mutation photoAdded,
                                 Notify_load 1] chatLog))
     = rescrollCalls (trace (run [Notify_mutation photoAdded, Notify_mutation photoAdded]
                               chatLog)) + 2"
  by code_simp

text \<open>
  C8, amended. A load notification on an image runs \<open>rescroll\<close> once for each listener on
  the image and leaves none of them on it, so a second load notification changes nothing.
  A mutation batch adds to an image one listener for each time the batch reports it as
  added. Hence an image without listeners that is reported once gets exactly one
  \<open>rescroll\<close> call from its load notification; an image reported \<open>k\<close> times before it
  loads gets \<open>k\<close>. The premise on listener identities holds in every state reached from
  the constructor.
\<close>

theorem load_listener_fires_once:
  assumes "listenersFresh s"
  shows "rescrollCalls (trace (step (Notify_load i) s))
           = rescrollCalls (trace s) + length (listenersOn i s)
       \<and> listenersOn i (step (Notify_load i) s) = []
       \<and> step (Notify_load i) (step (Notify_load i) s) = step (Notify_load i) s
       \<and> length (listenersOn i (onMutation ms s))
           = length (listenersOn i s) + count_list (addedImages ms) i
       \<and> (listenersOn i s = [] \<and> count_list (addedImages ms) i = 1 \<longrightarrow>
            rescrollCalls (trace (step (Notify_load i) (onMutation ms s)))
              = rescrollCalls (trace (onMutation ms s)) + 1)
       \<and> listenersFresh (run es (constructor w opts))"
proof -
  note a = load_counts [OF assms, of i]
  have b: "step (Notify_load i) (step (Notify_load i) s) = step (Notify_load i) s"
    using a(2) by simp
  have "listenersFresh (onMutation ms s)" using assms by (rule listenersFresh_onMutation)
  from load_counts(1) [OF this, of i]
  have c: "rescrollCalls (trace (step (Notify_load i) (onMutation ms s)))
         = rescrollCalls (trace (onMutation ms s)) + length (listenersOn i (onMutation ms s))" .
  show ?thesis
    using a b c listenersOn_onMutation [of i ms s]
      listenersFresh_run [OF listenersFresh_constructor, of es w opts]
    by simp
qed

theorem load_listener_fires_once_witness:
  "listenersFresh chatLog
   \<and> listenersOn 1 chatLog = [] \<and> count_list (addedImages photoAdded) 1 = 1
   \<and> length (listenersOn 1 (onMutation photoAdded chatLog)) = 1
   \<and> rescrollCalls (trace (step (Notify_load 1) (onMutation photoAdded chatLog)))
       = rescrollCalls (trace (onMutation photoAdded chatLog)) + 1
   \<and> step (Notify_load 1) (step (Notify_load 1) (onMutation photoAdded chatLog))
       = step (Notify_load 1) (onMutation photoAdded chatLog)"
proof -
  have f: "listenersFresh chatLog" by code_simp
  have g: "listenersFresh (onMutation photoAdded chatLog)" by code_simp
  have e: "listenersOn 1 chatLog = []" "count_list (addedImages photoAdded) 1 = 1"
    by code_simp+
  from load_listener_fires_once [OF f, of 1 photoAdded] e
    load_listener_fires_once [OF g, of 1]
  show ?thesis using f by simp
qed

subsection \<open>Teardown\<close>

text \<open>
  After the constructor \<open>this.interval\<close> is never zero: it holds the period, or the timer
  handle in fallback mode. So \<open>close\<close> calls \<open>clearInterval\<close> on every constructed engine.
\<close>

lemma close_always_clears:
  "Window_clearInterval (interval (constructor w opts))
     \<in> set (trace (close (constructor w opts)))"
proof -
  have "interval (constructor w opts) \<noteq> 0"
    using hostOwned_constructor [of w opts] by (simp add: hostOwned_def)
  then show ?thesis by (simp add: close_def Let_def)
qed

text \<open>
  C9. The claim does not hold of the code in observer mode. An engine constructed with the
  default options where \<open>MutationObserver\<close> exists has no timer, yet \<open>close\<close> calls
  \<open>clearInterval\<close> with the polling period 100 as if it were a handle. In fallback mode
  \<open>close\<close> cancels the timer it started and issues no \<open>disconnect\<close>, as claimed; in both
  modes it removes the scroll and the resize listener.
\<close>

theorem close_clears_interval_in_observer_mode:
  "timers chatLog = []
   \<and> trace (close chatLog)
       = RemoveEventListener ResizeEvt # RemoveEventListener ScrollEvt
         # Window_clearInterval 100 # Observer_disconnect # trace chatLog
   \<and> timers polledLog = [1]
   \<and> timers (close polledLog) = []
   \<and> trace (close polledLog)
       = RemoveEventListener ResizeEvt # RemoveEventListener ScrollEvt
         # Window_clearInterval 1 # trace polledLog"
  by code_simp

subsection \<open>Setting and removing the lock\<close>







end
